theory Spec2Isabelle
  imports Complex_Main "HOL-Library.Product_Lexorder"
begin

section \<open>Data model\<close>

text \<open>
  A tick is one row of a pandas DataFrame: the index value (a timezone-aware instant,
  held as nanoseconds since the Unix epoch in UTC, as pandas holds it) and the four
  numeric columns. The program never computes with the columns; it only carries them.
  A DataFrame is the list of its rows in row order; the empty DataFrame is \<open>[]\<close>.
\<close>

record tick =
  timestamp :: int
  bidPrice :: real
  askPrice :: real
  bidVolume :: real
  askVolume :: real

type_synonym dataframe = "tick list"

text \<open>
  A CSV file on disk. \<open>Csv None df\<close> is a frame written as it is held in memory (a cache
  partition); \<open>Csv (Some tz) df\<close> is a frame written after \<open>tz_convert(tz)\<close> (an export):
  the instants are the same, the rendering zone is \<open>tz\<close>. \<open>Garbled\<close> is a file on which
  \<open>pd.read_csv\<close> raises. The file system is a map from paths to files; directories
  (\<open>os.makedirs\<close>) are not modelled.
\<close>

datatype csv_file = Csv "string option" dataframe | Garbled

type_synonym filesystem = "string \<rightharpoonup> csv_file"

datatype error =
    UnknownTimeZoneError string
  | FetchError string
  | ParserError string

text \<open>The lines the program prints, one constructor for each \<open>print\<close> of the source.\<close>

datatype msg =
    UsingBrokerTimezone string
  | RequiredDataRange int int
  | Separator
  | ProcessingSymbol string string
  | FoundLocalData int
  | NoLocalData
  | FetchingNewData int int
  | ErrorFetching string error
  | LocalUpToDate
  | NoDataAvailable string
  | FinalDatasetEmpty string
  | SavedProcessed string
  | FirstTimestamp int
  | LastTimestamp int
  | WarningCouldNotLoad string
  | SavedRawCache string
  | DefaultTimezoneSet string
  | UnknownTimezone string

text \<open>
  The state the program acts on: the one field of the fetcher object, the file system,
  the text printed so far, and the calls made to the external fetch so far.
\<close>

record state =
  broker_timezone :: string
  files :: filesystem
  stdout :: "msg list"
  fetch_calls :: "(string \<times> int \<times> int) list"

text \<open>
  The collaborators the program does not own: the clock (\<open>pd.Timestamp.now(tz=utc)\<close>, and
  \<open>datetime.now().strftime('%Y-%m-%d')\<close>), \<open>relativedelta\<close> (\<open>months_before e n\<close> is
  \<open>e - relativedelta(months=n)\<close>), the timezone database (\<open>pytz.timezone\<close> raises
  \<open>UnknownTimeZoneError\<close> exactly on the names that are not known) and
  \<open>dukascopy_python.fetch\<close>. The fetch is indexed by the number of calls made before, so
  that two calls with the same arguments may answer differently; \<open>Inl\<close> is a raise.
\<close>

record env =
  now_utc :: int
  today_str :: string
  months_before :: "int \<Rightarrow> int \<Rightarrow> int"
  known_timezone :: "string \<Rightarrow> bool"
  dukascopy_fetch :: "nat \<Rightarrow> string \<Rightarrow> int \<Rightarrow> int \<Rightarrow> error + dataframe"

section \<open>Calendar\<close>

definition ns_per_day :: int where
  "ns_per_day = 86400000000000"

text \<open>\<open>Timestamp.floor('D')\<close> of a UTC instant.\<close>

definition floor_D :: "int \<Rightarrow> int" where
  "floor_D t = t - t mod ns_per_day"

text \<open>
  The proleptic Gregorian date (year, month, day) of a day number counted from
  1970-01-01, which is what \<open>index.year\<close> and \<open>index.month\<close> read off a UTC instant.
\<close>

definition civil_from_days :: "int \<Rightarrow> int \<times> int \<times> int" where
  "civil_from_days z0 =
     (let z = z0 + 719468;
          era = z div 146097;
          doe = z - era * 146097;
          yoe = (doe - doe div 1460 + doe div 36524 - doe div 146096) div 365;
          y = yoe + era * 400;
          doy = doe - (365 * yoe + yoe div 4 - yoe div 100);
          mp = (5 * doy + 2) div 153;
          d = doy - (153 * mp + 2) div 5 + 1;
          m = (if mp < 10 then mp + 3 else mp - 9)
      in (if m \<le> 2 then y + 1 else y, m, d))"

definition year_month :: "int \<Rightarrow> int \<times> int" where
  "year_month t = (case civil_from_days (t div ns_per_day) of (y, m, d) \<Rightarrow> (y, m))"

section \<open>Strings and paths\<close>

definition digit_char :: "int \<Rightarrow> char" where
  "digit_char d = ''0123456789'' ! nat d"

text \<open>The decimal digits of an integer that is not negative.\<close>

function digits :: "int \<Rightarrow> string" where
  "digits n = (if n < 10 then [digit_char n] else digits (n div 10) @ [digit_char (n mod 10)])"
  by pat_completeness auto
termination
  by (relation "measure nat") auto

declare digits.simps [simp del]

text \<open>\<open>str(n)\<close> of an integer.\<close>

definition str_int :: "int \<Rightarrow> string" where
  "str_int i = (if i < 0 then CHR ''-'' # digits (- i) else digits i)"

text \<open>The format \<open>{n:02d}\<close>: zero-padded to width two, the sign counted in the width.\<close>

definition fmt_02d :: "int \<Rightarrow> string" where
  "fmt_02d i = (let s = str_int i in if length s < 2 then CHR ''0'' # s else s)"

text \<open>\<open>s.replace('/', '_')\<close>.\<close>

definition replace_slash :: "string \<Rightarrow> string" where
  "replace_slash s = map (\<lambda>c. if c = CHR ''/'' then CHR ''_'' else c) s"

text \<open>\<open>os.path.join(a, b)\<close> on a POSIX system.\<close>

definition path_join :: "string \<Rightarrow> string \<Rightarrow> string" where
  "path_join a b =
     (if b \<noteq> [] \<and> hd b = CHR ''/'' then b
      else if a = [] \<or> last a = CHR ''/'' then a @ b
      else a @ ''/'' @ b)"

definition raw_data_dir :: "string \<Rightarrow> string" where
  "raw_data_dir output_dir = path_join output_dir ''raw_dukascopy_data''"

definition final_output_dir :: "string \<Rightarrow> string" where
  "final_output_dir output_dir = path_join output_dir ''processed_data''"

definition symbol_path :: "string \<Rightarrow> string \<Rightarrow> string" where
  "symbol_path raw_dir dukascopy_symbol = path_join raw_dir (replace_slash dukascopy_symbol)"

text \<open>
  The file of one month of one symbol:
  \<open>os.path.join(symbol_path, str(year), f"{month:02d}.csv")\<close>.
\<close>

definition partition_path :: "string \<Rightarrow> int \<Rightarrow> int \<Rightarrow> string" where
  "partition_path sp year month = path_join (path_join sp (str_int year)) (fmt_02d month @ ''.csv'')"

definition output_filename :: "string \<Rightarrow> string \<Rightarrow> string \<Rightarrow> string" where
  "output_filename target_symbol target_tz_str today =
     target_symbol @ ''-'' @ replace_slash target_tz_str @ ''-'' @ today @ ''.csv''"

section \<open>The pandas operations the program uses\<close>

text \<open>\<open>df[mask]\<close>: the rows at which the boolean mask is true.\<close>

definition select :: "'a list \<Rightarrow> bool list \<Rightarrow> 'a list" where
  "select df keep = map fst (filter snd (zip df keep))"

text \<open>
  \<open>index.duplicated(keep='first')\<close> marks every value seen before; \<open>keep='last'\<close> does the
  same from the end.
\<close>

fun duplicated_from :: "'a list \<Rightarrow> 'a list \<Rightarrow> bool list" where
  "duplicated_from seen [] = []"
| "duplicated_from seen (k # ks) = (k \<in> set seen) # duplicated_from (k # seen) ks"

definition duplicated_first :: "'a list \<Rightarrow> bool list" where
  "duplicated_first ks = duplicated_from [] ks"

definition duplicated_last :: "'a list \<Rightarrow> bool list" where
  "duplicated_last ks = rev (duplicated_from [] (rev ks))"

definition drop_duplicates_first :: "dataframe \<Rightarrow> dataframe" where
  "drop_duplicates_first df = select df (map Not (duplicated_first (map timestamp df)))"

definition drop_duplicates_last :: "dataframe \<Rightarrow> dataframe" where
  "drop_duplicates_last df = select df (map Not (duplicated_last (map timestamp df)))"

text \<open>
  \<open>sort_index\<close>. pandas leaves the order of rows with equal index values open; the model
  keeps their order. Where the program sorts after dropping duplicates there are no ties.
\<close>

definition sort_index :: "dataframe \<Rightarrow> dataframe" where
  "sort_index df = sort_key timestamp df"

text \<open>
  \<open>df.loc[a:b]\<close> on a frame sorted by index: the contiguous run of rows from the first
  one at or after \<open>a\<close> to the last one at or before \<open>b\<close>.
\<close>

definition loc_slice :: "int \<Rightarrow> int \<Rightarrow> dataframe \<Rightarrow> dataframe" where
  "loc_slice a b df = takeWhile (\<lambda>r. timestamp r \<le> b) (dropWhile (\<lambda>r. timestamp r < a) df)"

text \<open>\<open>df.index.max()\<close> of a frame that is not empty.\<close>

definition index_max :: "dataframe \<Rightarrow> int" where
  "index_max df = fold max (map timestamp (tl df)) (timestamp (hd df))"

definition print :: "msg list \<Rightarrow> state \<Rightarrow> state" where
  "print ms st = st\<lparr>stdout := stdout st @ ms\<rparr>"

section \<open>The fetcher\<close>

text \<open>\<open>Dukascopy_Tick_Data_Fetcher.__init__\<close>: a new object, in a given world.\<close>

definition init :: "filesystem \<Rightarrow> state" where
  "init fs = \<lparr>broker_timezone = ''Europe/Helsinki'', files = fs, stdout = [], fetch_calls = []\<rparr>"

subsection \<open>Loading the cache\<close>

text \<open>
  The months \<open>pd.date_range(month_start, end_date, freq='MS')\<close> runs through, as
  (year, month): from the month of \<open>start_date\<close> to the month of \<open>end_date\<close>, none when
  the first lies after the second. (The clock is read at microsecond resolution, so
  \<open>month_start\<close> is the midnight that begins the month of \<open>start_date\<close>.)
\<close>

definition month_range :: "int \<Rightarrow> int \<Rightarrow> (int \<times> int) list" where
  "month_range start_date end_date =
     (case (year_month start_date, year_month end_date) of
        ((ys, ms), (ye, me)) \<Rightarrow>
          map (\<lambda>i. (i div 12, i mod 12 + 1)) [ys * 12 + ms - 1 .. ye * 12 + me - 1])"

text \<open>
  The loop of \<open>_load_local_data\<close>: the frames read, in month order, and the warnings
  printed. A missing file is passed over; a file that cannot be read is warned about and
  passed over; an empty frame is not kept.
\<close>

fun load_months :: "string \<Rightarrow> (int \<times> int) list \<Rightarrow> filesystem \<Rightarrow> dataframe list \<times> msg list" where
  "load_months sp [] fs = ([], [])"
| "load_months sp ((y, m) # rest) fs =
     (case load_months sp rest fs of
        (dfs, warnings) \<Rightarrow>
          (case fs (partition_path sp y m) of
             None \<Rightarrow> (dfs, warnings)
           | Some Garbled \<Rightarrow> (dfs, WarningCouldNotLoad (partition_path sp y m) # warnings)
           | Some (Csv z df) \<Rightarrow> (if df \<noteq> [] then df # dfs else dfs, warnings)))"

definition load_local_data :: "string \<Rightarrow> int \<Rightarrow> int \<Rightarrow> filesystem \<Rightarrow> dataframe \<times> msg list" where
  "load_local_data sp start_date end_date fs =
     (case load_months sp (month_range start_date end_date) fs of
        (dfs, warnings) \<Rightarrow>
          (if dfs = [] then [] else loc_slice start_date end_date (sort_index (concat dfs)), warnings))"

subsection \<open>Saving into the cache\<close>

text \<open>
  \<open>index.year\<close> and \<open>index.month\<close>: the key of every row, as one list of pairs.
\<close>

definition index_year_month :: "dataframe \<Rightarrow> (int \<times> int) list" where
  "index_year_month df = map year_month (map timestamp df)"

text \<open>
  \<open>df.groupby([index.year, index.month])\<close>: the groups in ascending key order, each with
  the rows of that key in the frame's order.
\<close>

definition groupby_year_month :: "dataframe \<Rightarrow> ((int \<times> int) \<times> dataframe) list" where
  "groupby_year_month df =
     map (\<lambda>k. (k, select df (map (\<lambda>k'. k' = k) (index_year_month df))))
       (sort (remdups (index_year_month df)))"

text \<open>What is written over an existing partition: lines 125 to 127 of the source.\<close>

definition merge_partition :: "dataframe \<Rightarrow> dataframe \<Rightarrow> dataframe" where
  "merge_partition existing_df group_df = sort_index (drop_duplicates_last (existing_df @ group_df))"

text \<open>
  The loop of \<open>_save_local_data\<close>. \<open>pd.read_csv\<close> of an existing file is not guarded
  here: when it raises, the loop stops with the files written so far.
\<close>

fun save_groups :: "string \<Rightarrow> ((int \<times> int) \<times> dataframe) list \<Rightarrow> filesystem \<Rightarrow> filesystem \<times> error option" where
  "save_groups sp [] fs = (fs, None)"
| "save_groups sp (((year, month), group_df) # rest) fs =
     (case fs (partition_path sp year month) of
        Some Garbled \<Rightarrow> (fs, Some (ParserError (partition_path sp year month)))
      | Some (Csv z existing_df) \<Rightarrow>
          save_groups sp rest
            (fs(partition_path sp year month \<mapsto> Csv None (merge_partition existing_df group_df)))
      | None \<Rightarrow> save_groups sp rest (fs(partition_path sp year month \<mapsto> Csv None group_df)))"

definition save_local_data :: "string \<Rightarrow> dataframe \<Rightarrow> state \<Rightarrow> state \<times> error option" where
  "save_local_data sp df_to_save st =
     (case save_groups sp (groupby_year_month df_to_save) (files st) of
        (fs, Some e) \<Rightarrow> (st\<lparr>files := fs\<rparr>, Some e)
      | (fs, None) \<Rightarrow> (print [SavedRawCache sp] (st\<lparr>files := fs\<rparr>), None))"

subsection \<open>Fetching\<close>

definition fetch_from_dukascopy :: "env \<Rightarrow> string \<Rightarrow> int \<Rightarrow> int \<Rightarrow> state \<Rightarrow> (error + dataframe) \<times> state" where
  "fetch_from_dukascopy e symbol start_date end_date st =
     (dukascopy_fetch e (length (fetch_calls st)) symbol start_date end_date,
      st\<lparr>fetch_calls := fetch_calls st @ [(symbol, start_date, end_date)]\<rparr>)"

subsection \<open>One symbol: the body of the loop of \<open>get\<close>\<close>

text \<open>
  Lines 38 to 53: where the fetch starts and which cached frames are kept, from the
  frame the cache gave.
\<close>

definition fetch_start_date :: "int \<Rightarrow> dataframe \<Rightarrow> int" where
  "fetch_start_date start_date local_df =
     (if local_df \<noteq> [] then floor_D (index_max local_df) else start_date)"

definition clean_local_df :: "dataframe \<Rightarrow> dataframe" where
  "clean_local_df local_df =
     select local_df (map (\<lambda>t. t < floor_D (index_max local_df)) (map timestamp local_df))"

definition local_dfs_to_combine :: "dataframe \<Rightarrow> dataframe list" where
  "local_dfs_to_combine local_df =
     (if local_df \<noteq> [] \<and> clean_local_df local_df \<noteq> [] then [clean_local_df local_df] else [])"

text \<open>
  Lines 55 to 66. \<open>None\<close> is the \<open>continue\<close> of the handler; \<open>Some dfs\<close> is what the step
  appends to \<open>dfs_to_combine\<close>. The handler also catches what \<open>_save_local_data\<close> raises.
\<close>

definition fetch_step :: "env \<Rightarrow> string \<Rightarrow> string \<Rightarrow> int \<Rightarrow> int \<Rightarrow> state \<Rightarrow> state \<times> dataframe list option" where
  "fetch_step e dukascopy_symbol sp fetch_start end_date st =
     (if fetch_start < end_date then
        (case fetch_from_dukascopy e dukascopy_symbol fetch_start end_date
                (print [FetchingNewData fetch_start end_date] st) of
           (Inl err, st1) \<Rightarrow> (print [ErrorFetching dukascopy_symbol err] st1, None)
         | (Inr new_df, st1) \<Rightarrow>
             (if new_df \<noteq> [] then
                (case save_local_data sp new_df st1 of
                   (st2, Some err) \<Rightarrow> (print [ErrorFetching dukascopy_symbol err] st2, None)
                 | (st2, None) \<Rightarrow> (st2, Some [new_df]))
              else (st1, Some [])))
      else (print [LocalUpToDate] st, Some []))"

text \<open>Lines 72 to 76: the frame that is exported.\<close>

definition final_df :: "int \<Rightarrow> int \<Rightarrow> dataframe list \<Rightarrow> dataframe" where
  "final_df start_date end_date dfs_to_combine =
     loc_slice start_date end_date (sort_index (drop_duplicates_first (concat dfs_to_combine)))"

text \<open>Lines 68 to 92.\<close>

definition export_step :: "env \<Rightarrow> int \<Rightarrow> int \<Rightarrow> string \<Rightarrow> string \<Rightarrow> string \<times> string \<Rightarrow> dataframe list \<Rightarrow> state \<Rightarrow> state" where
  "export_step e start_date end_date out_dir target_tz_str symbol dfs_to_combine st =
     (if dfs_to_combine = [] then print [NoDataAvailable (fst symbol)] st
      else if final_df start_date end_date dfs_to_combine = [] then print [FinalDatasetEmpty (fst symbol)] st
      else
        print
          [SavedProcessed (path_join out_dir (output_filename (snd symbol) target_tz_str (today_str e))),
           FirstTimestamp (timestamp (hd (final_df start_date end_date dfs_to_combine))),
           LastTimestamp (timestamp (last (final_df start_date end_date dfs_to_combine)))]
          (st\<lparr>files := (files st)
                (path_join out_dir (output_filename (snd symbol) target_tz_str (today_str e)) \<mapsto>
                   Csv (Some target_tz_str) (final_df start_date end_date dfs_to_combine))\<rparr>))"

definition process_symbol :: "env \<Rightarrow> int \<Rightarrow> int \<Rightarrow> string \<Rightarrow> string \<Rightarrow> string \<Rightarrow> string \<times> string \<Rightarrow> state \<Rightarrow> state" where
  "process_symbol e start_date end_date raw_dir out_dir target_tz_str symbol st =
     (case load_local_data (symbol_path raw_dir (fst symbol)) start_date end_date (files st) of
        (local_df, warnings) \<Rightarrow>
          (case fetch_step e (fst symbol) (symbol_path raw_dir (fst symbol))
                  (fetch_start_date start_date local_df) end_date
                  (print
                     ([Separator, ProcessingSymbol (fst symbol) (snd symbol)] @ warnings @
                      [if local_df \<noteq> [] then FoundLocalData (index_max local_df) else NoLocalData])
                     st) of
             (st1, None) \<Rightarrow> st1
           | (st1, Some new_dfs) \<Rightarrow>
               export_step e start_date end_date out_dir target_tz_str symbol
                 (local_dfs_to_combine local_df @ new_dfs) st1))"

subsection \<open>\<open>get\<close> and \<open>set_broker_timezone\<close>\<close>

text \<open>
  \<open>get\<close> raises where \<open>pytz.timezone\<close> does, before anything is printed or written;
  the state is then the one it was called in.
\<close>

definition get :: "env \<Rightarrow> int \<Rightarrow> (string \<times> string) list \<Rightarrow> string \<Rightarrow> string option \<Rightarrow> state \<Rightarrow> error + state" where
  "get e months_to_fetch symbols output_dir broker_tz st =
     (let target_tz_str = (case broker_tz of Some z \<Rightarrow> z | None \<Rightarrow> broker_timezone st) in
      if \<not> known_timezone e target_tz_str then Inl (UnknownTimeZoneError target_tz_str)
      else
        let end_date = now_utc e;
            start_date = months_before e end_date months_to_fetch
        in Inr (fold
                  (process_symbol e start_date end_date (raw_data_dir output_dir)
                     (final_output_dir output_dir) target_tz_str)
                  symbols
                  (print [UsingBrokerTimezone target_tz_str, RequiredDataRange start_date end_date] st)))"

definition set_broker_timezone :: "env \<Rightarrow> string \<Rightarrow> state \<Rightarrow> state" where
  "set_broker_timezone e timezone_name st =
     (if known_timezone e timezone_name
      then print [DefaultTimezoneSet timezone_name] (st\<lparr>broker_timezone := timezone_name\<rparr>)
      else print [UnknownTimezone timezone_name] st)"

section \<open>Reading a frame by timestamp\<close>

text \<open>
  Two notions the statements about merging are written in. \<open>newest_at df t\<close> is the row a
  frame holds last at the timestamp \<open>t\<close>, if it holds one; \<open>month_rows df y m\<close> are the rows
  of a frame that fall in the month \<open>m\<close> of the year \<open>y\<close>, in the frame's order.
\<close>

definition newest_at :: "dataframe \<Rightarrow> int \<rightharpoonup> tick" where
  "newest_at df = map_of (rev (map (\<lambda>r. (timestamp r, r)) df))"

definition month_rows :: "dataframe \<Rightarrow> int \<Rightarrow> int \<Rightarrow> dataframe" where
  "month_rows df y m = filter (\<lambda>r. year_month (timestamp r) = (y, m)) df"

section \<open>Example worlds\<close>

text \<open>
  Concrete inputs on which the theorems below are exercised. Times are nanoseconds since
  the epoch: day 20 is 1970-01-21, day 40 is 1970-02-10.
\<close>

definition mk_tick :: "int \<Rightarrow> real \<Rightarrow> tick" where
  "mk_tick t b = \<lparr>timestamp = t, bidPrice = b, askPrice = b, bidVolume = 1, askVolume = 1\<rparr>"

text \<open>
  A clock at five nanoseconds past midnight of 1970-02-10. The source answers for
  EUR/USD with three ticks, the first of them before the window it is asked for; for
  GBP/USD with a tick at the end of the window and one after it; for DUP/DUP with two
  ticks of one timestamp; and fails for every other symbol.
\<close>

definition demo_env :: env where
  "demo_env =
     \<lparr>now_utc = 3456000000000005,
      today_str = ''1970-02-10'',
      months_before = (\<lambda>e n. e - n * 2678400000000000),
      known_timezone = (\<lambda>z. z \<in> set [''UTC'', ''Europe/Helsinki'', ''America/New_York'']),
      dukascopy_fetch = (\<lambda>n s a b.
         if s = ''EUR/USD''
         then Inr [mk_tick 1728000000000007 9, mk_tick 1814400000000003 2, mk_tick 3024000000000000 3]
         else if s = ''GBP/USD''
         then Inr [mk_tick 3456000000000005 4, mk_tick 3456000000000006 5]
         else if s = ''DUP/DUP''
         then Inr [mk_tick 3024000000000000 1, mk_tick 3024000000000000 2]
         else Inl (FetchError ''Network error''))\<rparr>"

text \<open>The same world with the clock at midnight of 1970-02-10 exactly.\<close>

definition midnight_env :: env where
  "midnight_env = demo_env\<lparr>now_utc := 3456000000000000\<rparr>"

text \<open>A cache of EUR/USD with two ticks in January, on 1970-01-21 and 1970-01-22.\<close>

definition demo_files :: filesystem where
  "demo_files =
     [''out/raw_dukascopy_data/EUR_USD/1970/01.csv'' \<mapsto>
        Csv None [mk_tick 1728000000000007 1, mk_tick 1814400000000003 2]]"

text \<open>A cache of EUR/USD whose last tick lies at midnight of 1970-02-10 exactly.\<close>

definition midnight_files :: filesystem where
  "midnight_files =
     [''out/raw_dukascopy_data/EUR_USD/1970/02.csv'' \<mapsto>
        Csv None [mk_tick 3024000000000000 3, mk_tick 3456000000000000 4]]"

text \<open>A cache of EUR/USD that holds the tick at that midnight and nothing else.\<close>

definition lone_files :: filesystem where
  "lone_files =
     [''out/raw_dukascopy_data/EUR_USD/1970/02.csv'' \<mapsto> Csv None [mk_tick 3456000000000000 4]]"

section \<open>Frame facts: what each step leaves alone\<close>

lemma print_fields [simp]:
  "files (print ms st) = files st"
  "broker_timezone (print ms st) = broker_timezone st"
  "fetch_calls (print ms st) = fetch_calls st"
  "stdout (print ms st) = stdout st @ ms"
  by (simp_all add: print_def)

lemma select_map: "select xs (map p xs) = filter p xs"
  by (induction xs) (simp_all add: select_def)

lemma clean_local_df_filter:
  "clean_local_df local_df = filter (\<lambda>r. timestamp r < floor_D (index_max local_df)) local_df"
  by (simp add: clean_local_df_def select_map o_def)

lemma fold_max_Max: "fold max ts (t::int) = Max (insert t (set ts))"
proof (induction ts arbitrary: t)
  case Nil
  then show ?case by simp
next
  case (Cons a ts)
  have "Max (insert (max a t) (set ts)) = Max (insert t (insert a (set ts)))"
  proof (cases "set ts = {}")
    case True
    then show ?thesis by (simp add: max.commute)
  next
    case False
    then show ?thesis by (simp add: max.assoc max.commute max.left_commute)
  qed
  with Cons show ?case by simp
qed

lemma index_max_Max: "df \<noteq> [] \<Longrightarrow> index_max df = Max (timestamp ` set df)"
  by (cases df) (simp_all add: index_max_def fold_max_Max)

lemma floor_D_bounds: "floor_D t \<le> t \<and> t < floor_D t + ns_per_day \<and> floor_D t mod ns_per_day = 0"
  by (simp add: floor_D_def ns_per_day_def)

lemma local_dfs_concat:
  "local_df \<noteq> [] \<Longrightarrow> concat (local_dfs_to_combine local_df) = clean_local_df local_df"
  by (simp add: local_dfs_to_combine_def)

lemma save_local_data_frame:
  assumes "save_local_data sp df st = (st', r)"
  shows "fetch_calls st' = fetch_calls st" and "broker_timezone st' = broker_timezone st"
  using assms by (auto simp add: save_local_data_def split: prod.splits option.splits)

lemma fetch_step_frame:
  assumes "fetch_step e ds sp a b st = (st', r)"
  shows "fetch_calls st' = (if a < b then fetch_calls st @ [(ds, a, b)] else fetch_calls st)"
    and "broker_timezone st' = broker_timezone st"
  using assms
  by (auto simp add: fetch_step_def fetch_from_dukascopy_def
      split: if_splits sum.splits prod.splits option.splits
      dest: save_local_data_frame(1) save_local_data_frame(2))

lemma export_step_frame:
  "fetch_calls (export_step e s b od tz symbol dfs st) = fetch_calls st"
  "broker_timezone (export_step e s b od tz symbol dfs st) = broker_timezone st"
  by (simp_all add: export_step_def)

lemma process_symbol_eq:
  assumes "load_local_data (symbol_path raw_dir (fst symbol)) s b (files st) = (local_df, warnings)"
    and "fetch_step e (fst symbol) (symbol_path raw_dir (fst symbol)) (fetch_start_date s local_df) b
          (print ([Separator, ProcessingSymbol (fst symbol) (snd symbol)] @ warnings @
             [if local_df \<noteq> [] then FoundLocalData (index_max local_df) else NoLocalData]) st) = (st1, r)"
  shows "process_symbol e s b raw_dir od tz symbol st =
     (case r of None \<Rightarrow> st1
      | Some new_dfs \<Rightarrow> export_step e s b od tz symbol (local_dfs_to_combine local_df @ new_dfs) st1)"
  using assms by (simp add: process_symbol_def)

lemma process_symbol_calls:
  assumes L: "load_local_data (symbol_path raw_dir (fst symbol)) s b (files st) = (local_df, warnings)"
  shows "fetch_calls (process_symbol e s b raw_dir od tz symbol st) =
     (if fetch_start_date s local_df < b
      then fetch_calls st @ [(fst symbol, fetch_start_date s local_df, b)] else fetch_calls st)"
proof -
  obtain st1 r where F: "fetch_step e (fst symbol) (symbol_path raw_dir (fst symbol)) (fetch_start_date s local_df) b
          (print ([Separator, ProcessingSymbol (fst symbol) (snd symbol)] @ warnings @
             [if local_df \<noteq> [] then FoundLocalData (index_max local_df) else NoLocalData]) st) = (st1, r)"
    by (meson surj_pair)
  show ?thesis
    unfolding process_symbol_eq [OF L F]
    using fetch_step_frame(1) [OF F]
    by (cases r) (simp_all add: export_step_frame)
qed

lemma process_symbol_tz:
  "broker_timezone (process_symbol e s b raw_dir od tz symbol st) = broker_timezone st"
proof -
  obtain local_df warnings where L: "load_local_data (symbol_path raw_dir (fst symbol)) s b (files st) = (local_df, warnings)"
    by (meson surj_pair)
  obtain st1 r where F: "fetch_step e (fst symbol) (symbol_path raw_dir (fst symbol)) (fetch_start_date s local_df) b
          (print ([Separator, ProcessingSymbol (fst symbol) (snd symbol)] @ warnings @
             [if local_df \<noteq> [] then FoundLocalData (index_max local_df) else NoLocalData]) st) = (st1, r)"
    by (meson surj_pair)
  show ?thesis
    unfolding process_symbol_eq [OF L F]
    using fetch_step_frame(2) [OF F]
    by (cases r) (simp_all add: export_step_frame)
qed

section \<open>Setting the default timezone\<close>

text \<open>
  C7: \<open>set_broker_timezone\<close> with a name the timezone database does not know leaves the
  stored default, the files and the fetch calls as they were (it only prints the
  rejection); with a known name the stored default becomes that name.
\<close>

theorem set_broker_timezone_checked:
  "(\<not> known_timezone e timezone_name \<longrightarrow>
      set_broker_timezone e timezone_name st = st\<lparr>stdout := stdout st @ [UnknownTimezone timezone_name]\<rparr>) \<and>
   (known_timezone e timezone_name \<longrightarrow>
      set_broker_timezone e timezone_name st =
        st\<lparr>broker_timezone := timezone_name, stdout := stdout st @ [DefaultTimezoneSet timezone_name]\<rparr>)"
  by (simp add: set_broker_timezone_def print_def)

theorem set_broker_timezone_checked_witness:
  "\<not> known_timezone demo_env ''Invalid/Timezone'' \<and>
   broker_timezone (set_broker_timezone demo_env ''Invalid/Timezone'' (init Map.empty)) = ''Europe/Helsinki'' \<and>
   files (set_broker_timezone demo_env ''Invalid/Timezone'' (init Map.empty)) = Map.empty \<and>
   known_timezone demo_env ''America/New_York'' \<and>
   broker_timezone (set_broker_timezone demo_env ''America/New_York'' (init Map.empty)) = ''America/New_York''"
  using set_broker_timezone_checked [of demo_env "''Invalid/Timezone''" "init Map.empty"]
    set_broker_timezone_checked [of demo_env "''America/New_York''" "init Map.empty"]
  by (simp add: demo_env_def init_def)

section \<open>The exported frame\<close>

lemma takeWhile_sorted_le:
  "sorted (map timestamp df) \<Longrightarrow>
   takeWhile (\<lambda>r. timestamp r \<le> b) df = filter (\<lambda>r. timestamp r \<le> b) df"
proof (induction df)
  case Nil
  then show ?case by simp
next
  case (Cons x xs)
  show ?case
  proof (cases "timestamp x \<le> b")
    case True
    with Cons show ?thesis by simp
  next
    case False
    with Cons.prems have "\<forall>r \<in> set xs. \<not> timestamp r \<le> b" by auto
    then have "filter (\<lambda>r. timestamp r \<le> b) xs = []" by (simp add: filter_empty_conv)
    with False show ?thesis by simp
  qed
qed

lemma loc_slice_sorted:
  "sorted (map timestamp df) \<Longrightarrow>
   loc_slice a b df = filter (\<lambda>r. a \<le> timestamp r \<and> timestamp r \<le> b) df"
proof (induction df)
  case Nil
  then show ?case by (simp add: loc_slice_def)
next
  case (Cons x xs)
  show ?case
  proof (cases "timestamp x < a")
    case True
    with Cons show ?thesis by (simp add: loc_slice_def)
  next
    case False
    with Cons.prems have all: "\<forall>r \<in> set (x # xs). a \<le> timestamp r" by auto
    have "loc_slice a b (x # xs) = takeWhile (\<lambda>r. timestamp r \<le> b) (x # xs)"
      using False by (simp add: loc_slice_def)
    also have "\<dots> = filter (\<lambda>r. timestamp r \<le> b) (x # xs)"
      using Cons.prems by (rule takeWhile_sorted_le)
    also have "\<dots> = filter (\<lambda>r. a \<le> timestamp r \<and> timestamp r \<le> b) (x # xs)"
      using all by (intro filter_cong) auto
    finally show ?thesis .
  qed
qed

lemma sorted_sort_index: "sorted (map timestamp (sort_index df))"
  by (simp add: sort_index_def)

lemma final_df_filter:
  "final_df s b dfs =
     filter (\<lambda>r. s \<le> timestamp r \<and> timestamp r \<le> b) (sort_index (drop_duplicates_first (concat dfs)))"
  by (simp add: final_df_def loc_slice_sorted sorted_sort_index)

lemma final_df_Nil: "final_df s b [] = []"
  by (simp add: final_df_def loc_slice_def sort_index_def drop_duplicates_first_def select_def duplicated_first_def)

lemma export_step_files:
  "files (export_step e s b od tz symbol dfs st) =
     (if final_df s b dfs = [] then files st
      else (files st)(path_join od (output_filename (snd symbol) tz (today_str e)) \<mapsto>
             Csv (Some tz) (final_df s b dfs)))"
  by (simp add: export_step_def final_df_Nil)

text \<open>
  C9 (as amended): the frame passed to the export is the merged frame (duplicates dropped,
  sorted) restricted to the closed window from \<open>start_date\<close> to \<open>end_date\<close>, both
  ends included: \<open>.loc[start_date:end_date]\<close> keeps a row whose timestamp equals
  \<open>end_date\<close>. A file is written exactly when that frame is not empty.
\<close>

theorem export_clipped_to_closed_window:
  "files (export_step e s b od tz symbol dfs st) =
     (if final_df s b dfs = [] then files st
      else (files st)(path_join od (output_filename (snd symbol) tz (today_str e)) \<mapsto>
             Csv (Some tz) (final_df s b dfs))) \<and>
   final_df s b dfs =
     filter (\<lambda>r. s \<le> timestamp r \<and> timestamp r \<le> b) (sort_index (drop_duplicates_first (concat dfs)))"
  using export_step_files final_df_filter by simp

text \<open>
  C9 as stated fails: the source answers GBP/USD with a tick at \<open>end_date\<close> itself and
  one a nanosecond later; the first is exported, the second is not.
\<close>

theorem export_keeps_tick_at_end_counterexample:
  "now_utc demo_env = 3456000000000005 \<and>
   map_sum id (\<lambda>st. files st ''out/processed_data/GBPUSD-UTC-1970-02-10.csv'')
     (get demo_env 1 [(''GBP/USD'', ''GBPUSD'')] ''out'' (Some ''UTC'') (init Map.empty)) =
   Inr (Some (Csv (Some ''UTC'') [mk_tick 3456000000000005 4]))"
  by code_simp

section \<open>The fetch window\<close>

lemma fetch_step_closed:
  "\<not> a < b \<Longrightarrow> fetch_step e ds sp a b st = (print [LocalUpToDate] st, Some [])"
  by (simp add: fetch_step_def)

lemma process_symbol_files_closed:
  assumes L: "load_local_data (symbol_path raw_dir (fst symbol)) s b (files st) = (local_df, warnings)"
    and C: "\<not> fetch_start_date s local_df < b"
  shows "files (process_symbol e s b raw_dir od tz symbol st) =
     (if final_df s b (local_dfs_to_combine local_df) = [] then files st
      else (files st)(path_join od (output_filename (snd symbol) tz (today_str e)) \<mapsto>
             Csv (Some tz) (final_df s b (local_dfs_to_combine local_df))))"
  unfolding process_symbol_eq [OF L fetch_step_closed [OF C]]
  by (simp add: export_step_files)

text \<open>
  C1 (as amended): when the cache gives a frame that is not empty, with greatest timestamp
  \<open>T\<close>, the fetch starts at \<open>D\<close>, the midnight at or before \<open>T\<close>; the cached rows kept are
  exactly those before \<open>D\<close>; and the source is asked for \<open>D\<close> to \<open>end_date\<close> when
  \<open>D < end_date\<close>. When \<open>D\<close> is not before \<open>end_date\<close> no request is made.
\<close>

theorem fetch_window_from_cache:
  assumes "load_local_data (symbol_path raw_dir (fst symbol)) s b (files st) = (local_df, warnings)"
    and "local_df \<noteq> []"
    and "T = Max (timestamp ` set local_df)"
    and "D = floor_D T"
  shows "fetch_start_date s local_df = D \<and>
         D \<le> T \<and> T < D + ns_per_day \<and> D mod ns_per_day = 0 \<and>
         concat (local_dfs_to_combine local_df) = filter (\<lambda>r. timestamp r < D) local_df \<and>
         fetch_calls (process_symbol e s b raw_dir od tz symbol st) =
           (if D < b then fetch_calls st @ [(fst symbol, D, b)] else fetch_calls st)"
proof -
  have M: "index_max local_df = T"
    using assms(2,3) by (simp add: index_max_Max)
  have S: "fetch_start_date s local_df = D"
    using assms(2,4) M by (simp add: fetch_start_date_def)
  have K: "concat (local_dfs_to_combine local_df) = filter (\<lambda>r. timestamp r < D) local_df"
    using assms(2,4) M by (simp add: local_dfs_concat clean_local_df_filter)
  show ?thesis
    using S K floor_D_bounds [of T] assms(4) process_symbol_calls [OF assms(1), of e od tz]
    by simp
qed

theorem fetch_window_from_cache_witness:
  "load_local_data (symbol_path ''out/raw_dukascopy_data'' (fst (''EUR/USD'', ''EURUSD'')))
      777600000000005 3456000000000005 (files (init demo_files)) =
     ([mk_tick 1728000000000007 1, mk_tick 1814400000000003 2], []) \<and>
   1814400000000003 = Max (timestamp ` set [mk_tick 1728000000000007 1, mk_tick 1814400000000003 2]) \<and>
   1814400000000000 = floor_D 1814400000000003 \<and>
   concat (local_dfs_to_combine [mk_tick 1728000000000007 1, mk_tick 1814400000000003 2]) =
     [mk_tick 1728000000000007 1] \<and>
   fetch_calls (process_symbol demo_env 777600000000005 3456000000000005 ''out/raw_dukascopy_data''
       ''out/processed_data'' ''UTC'' (''EUR/USD'', ''EURUSD'') (init demo_files)) =
     [(''EUR/USD'', 1814400000000000, 3456000000000005)]"
proof -
  have h1: "load_local_data (symbol_path ''out/raw_dukascopy_data'' (fst (''EUR/USD'', ''EURUSD'')))
      777600000000005 3456000000000005 (files (init demo_files)) =
     ([mk_tick 1728000000000007 1, mk_tick 1814400000000003 2], [])"
    by code_simp
  have h2: "[mk_tick 1728000000000007 1, mk_tick 1814400000000003 2] \<noteq> []" by simp
  have h3: "1814400000000003 = Max (timestamp ` set [mk_tick 1728000000000007 1, mk_tick 1814400000000003 2])"
    by (simp add: mk_tick_def)
  have h4: "1814400000000000 = floor_D 1814400000000003"
    by (simp add: floor_D_def ns_per_day_def)
  show ?thesis
    using fetch_window_from_cache [OF h1 h2 h3 h4, of demo_env "''out/processed_data''" "''UTC''"] h1 h3 h4
    by (simp add: init_def mk_tick_def)
qed

text \<open>
  C1 as stated fails: with the clock at a midnight and a cached tick at that very instant,
  the cache gives a frame that is not empty and the source is not asked for anything.
\<close>

theorem no_request_at_midnight_counterexample:
  "fst (load_local_data (symbol_path (raw_data_dir ''out'') ''EUR/USD'')
         (months_before midnight_env (now_utc midnight_env) 1) (now_utc midnight_env) midnight_files) =
     [mk_tick 3024000000000000 3, mk_tick 3456000000000000 4] \<and>
   map_sum id fetch_calls
     (get midnight_env 1 [(''EUR/USD'', ''EURUSD'')] ''out'' None (init midnight_files)) = Inr []"
  by code_simp

text \<open>
  C5 (as amended): the source is asked exactly when the start of the fetch window lies
  before \<open>end_date\<close>. When it does not, nothing is fetched and the export is made from the
  cached rows kept (those before the start of the fetch window): a file is written when
  that frame is not empty, and no file is written when it is empty.
\<close>

theorem fetch_iff_window_open:
  assumes "load_local_data (symbol_path raw_dir (fst symbol)) s b (files st) = (local_df, warnings)"
  shows "fetch_calls (process_symbol e s b raw_dir od tz symbol st) =
           (if fetch_start_date s local_df < b
            then fetch_calls st @ [(fst symbol, fetch_start_date s local_df, b)]
            else fetch_calls st) \<and>
         (\<not> fetch_start_date s local_df < b \<longrightarrow>
            files (process_symbol e s b raw_dir od tz symbol st) =
              (if final_df s b (local_dfs_to_combine local_df) = [] then files st
               else (files st)(path_join od (output_filename (snd symbol) tz (today_str e)) \<mapsto>
                      Csv (Some tz) (final_df s b (local_dfs_to_combine local_df)))))"
  using process_symbol_calls [OF assms] process_symbol_files_closed [OF assms]
  by simp

theorem fetch_iff_window_open_witness:
  "load_local_data (symbol_path ''out/raw_dukascopy_data'' (fst (''EUR/USD'', ''EURUSD'')))
      777600000000000 3456000000000000 (files (init midnight_files)) =
     ([mk_tick 3024000000000000 3, mk_tick 3456000000000000 4], []) \<and>
   \<not> fetch_start_date 777600000000000 [mk_tick 3024000000000000 3, mk_tick 3456000000000000 4]
       < 3456000000000000 \<and>
   fetch_calls (process_symbol midnight_env 777600000000000 3456000000000000 ''out/raw_dukascopy_data''
       ''out/processed_data'' ''UTC'' (''EUR/USD'', ''EURUSD'') (init midnight_files)) = [] \<and>
   files (process_symbol midnight_env 777600000000000 3456000000000000 ''out/raw_dukascopy_data''
       ''out/processed_data'' ''UTC'' (''EUR/USD'', ''EURUSD'') (init midnight_files))
     ''out/processed_data/EURUSD-UTC-1970-02-10.csv'' =
     Some (Csv (Some ''UTC'') [mk_tick 3024000000000000 3])"
proof -
  have h1: "load_local_data (symbol_path ''out/raw_dukascopy_data'' (fst (''EUR/USD'', ''EURUSD'')))
      777600000000000 3456000000000000 (files (init midnight_files)) =
     ([mk_tick 3024000000000000 3, mk_tick 3456000000000000 4], [])"
    by code_simp
  have h2: "\<not> fetch_start_date 777600000000000 [mk_tick 3024000000000000 3, mk_tick 3456000000000000 4]
       < 3456000000000000"
    by code_simp
  have h3: "final_df 777600000000000 3456000000000000
       (local_dfs_to_combine [mk_tick 3024000000000000 3, mk_tick 3456000000000000 4]) =
     [mk_tick 3024000000000000 3]"
    by code_simp
  have h4: "path_join ''out/processed_data'' (output_filename (snd (''EUR/USD'', ''EURUSD'')) ''UTC''
       (today_str midnight_env)) = ''out/processed_data/EURUSD-UTC-1970-02-10.csv''"
    by code_simp
  show ?thesis
    using fetch_iff_window_open [OF h1, of midnight_env "''out/processed_data''" "''UTC''"] h1 h2 h3 h4
    by (simp add: init_def)
qed

text \<open>
  C5 as stated fails: the cache holds one tick, at \<open>end_date\<close>, which is a midnight. The
  fetch window starts at \<open>end_date\<close>, nothing is fetched, and no file is written, since
  the one cached tick is not before the start of the fetch window.
\<close>

theorem no_export_from_lone_tick_counterexample:
  "fst (load_local_data (symbol_path (raw_data_dir ''out'') ''EUR/USD'')
         (months_before midnight_env (now_utc midnight_env) 1) (now_utc midnight_env) lone_files) =
     [mk_tick 3456000000000000 4] \<and>
   fetch_start_date (months_before midnight_env (now_utc midnight_env) 1) [mk_tick 3456000000000000 4] =
     now_utc midnight_env \<and>
   map_sum id (\<lambda>st. (fetch_calls st, files st ''out/processed_data/EURUSD-Europe_Helsinki-1970-02-10.csv'',
                      last (stdout st)))
     (get midnight_env 1 [(''EUR/USD'', ''EURUSD'')] ''out'' None (init lone_files)) =
     Inr ([], None, NoDataAvailable ''EUR/USD'')"
  by code_simp

section \<open>A failing fetch\<close>

lemma fetch_step_raises:
  assumes "a < b" and "dukascopy_fetch e (length (fetch_calls st)) ds a b = Inl err"
  shows "fetch_step e ds sp a b st =
     (st\<lparr>stdout := stdout st @ [FetchingNewData a b, ErrorFetching ds err],
         fetch_calls := fetch_calls st @ [(ds, a, b)]\<rparr>, None)"
  using assms by (simp add: fetch_step_def fetch_from_dukascopy_def print_def)

lemma process_symbol_raises:
  assumes L: "load_local_data (symbol_path raw_dir (fst symbol)) s b (files st) = (local_df, warnings)"
    and W: "fetch_start_date s local_df < b"
    and R: "dukascopy_fetch e (length (fetch_calls st)) (fst symbol) (fetch_start_date s local_df) b = Inl err"
  shows "process_symbol e s b raw_dir od tz symbol st =
     st\<lparr>stdout := stdout st @
           ([Separator, ProcessingSymbol (fst symbol) (snd symbol)] @ warnings @
            [if local_df \<noteq> [] then FoundLocalData (index_max local_df) else NoLocalData] @
            [FetchingNewData (fetch_start_date s local_df) b, ErrorFetching (fst symbol) err]),
         fetch_calls := fetch_calls st @ [(fst symbol, fetch_start_date s local_df, b)]\<rparr>"
proof -
  let ?st0 = "print ([Separator, ProcessingSymbol (fst symbol) (snd symbol)] @ warnings @
             [if local_df \<noteq> [] then FoundLocalData (index_max local_df) else NoLocalData]) st"
  have R0: "dukascopy_fetch e (length (fetch_calls ?st0)) (fst symbol) (fetch_start_date s local_df) b = Inl err"
    using R by simp
  show ?thesis
    unfolding process_symbol_eq [OF L fetch_step_raises [OF W R0]]
    by (simp add: print_def)
qed

lemma loop_skips_failed_symbol:
  assumes "st = fold (process_symbol e s b raw_dir od tz) before st0"
    and "load_local_data (symbol_path raw_dir (fst symbol)) s b (files st) = (local_df, warnings)"
    and "fetch_start_date s local_df < b"
    and "dukascopy_fetch e (length (fetch_calls st)) (fst symbol) (fetch_start_date s local_df) b = Inl err"
  shows "fold (process_symbol e s b raw_dir od tz) (before @ symbol # after) st0 =
           fold (process_symbol e s b raw_dir od tz) after
             (st\<lparr>stdout := stdout st @
                   ([Separator, ProcessingSymbol (fst symbol) (snd symbol)] @ warnings @
                    [if local_df \<noteq> [] then FoundLocalData (index_max local_df) else NoLocalData] @
                    [FetchingNewData (fetch_start_date s local_df) b, ErrorFetching (fst symbol) err]),
                 fetch_calls := fetch_calls st @ [(fst symbol, fetch_start_date s local_df, b)]\<rparr>)"
  using assms(1) process_symbol_raises [OF assms(2,3,4), of od tz]
  by simp

text \<open>
  C6: in a run of \<open>get\<close> over any list of symbols, a symbol whose fetch raises gets the
  error printed and one call to the source (no second try); no file is written or
  changed for it; and the run goes on with the symbols after it, from the state so left.
  Here \<open>st\<close> is the state the run has reached when it comes to the symbol.
\<close>

theorem fetch_failure_skips_symbol:
  assumes "known_timezone e tz"
    and "tz = (case broker_tz of Some z \<Rightarrow> z | None \<Rightarrow> broker_timezone st0)"
    and "b = now_utc e"
    and "s = months_before e b months_to_fetch"
    and "st = fold (process_symbol e s b (raw_data_dir output_dir) (final_output_dir output_dir) tz) before
                (print [UsingBrokerTimezone tz, RequiredDataRange s b] st0)"
    and "load_local_data (symbol_path (raw_data_dir output_dir) (fst symbol)) s b (files st) = (local_df, warnings)"
    and "fetch_start_date s local_df < b"
    and "dukascopy_fetch e (length (fetch_calls st)) (fst symbol) (fetch_start_date s local_df) b = Inl err"
  shows "get e months_to_fetch (before @ symbol # after) output_dir broker_tz st0 =
           Inr (fold (process_symbol e s b (raw_data_dir output_dir) (final_output_dir output_dir) tz) after
             (st\<lparr>stdout := stdout st @
                   ([Separator, ProcessingSymbol (fst symbol) (snd symbol)] @ warnings @
                    [if local_df \<noteq> [] then FoundLocalData (index_max local_df) else NoLocalData] @
                    [FetchingNewData (fetch_start_date s local_df) b, ErrorFetching (fst symbol) err]),
                 fetch_calls := fetch_calls st @ [(fst symbol, fetch_start_date s local_df, b)]\<rparr>))"
proof -
  have "get e months_to_fetch (before @ symbol # after) output_dir broker_tz st0 =
      Inr (fold (process_symbol e s b (raw_data_dir output_dir) (final_output_dir output_dir) tz)
             (before @ symbol # after) (print [UsingBrokerTimezone tz, RequiredDataRange s b] st0))"
    using assms(1,2,3,4) by (simp add: get_def Let_def)
  then show ?thesis
    using loop_skips_failed_symbol [OF assms(5,6,7,8), of after] by simp
qed

theorem fetch_failure_skips_symbol_witness:
  "known_timezone demo_env ''UTC'' \<and>
   load_local_data (symbol_path (raw_data_dir ''out'') (fst (''USD/JPY'', ''USDJPY'')))
      777600000000005 3456000000000005
      (files (print [UsingBrokerTimezone ''UTC'', RequiredDataRange 777600000000005 3456000000000005]
         (init demo_files))) = ([], []) \<and>
   fetch_start_date 777600000000005 [] < 3456000000000005 \<and>
   dukascopy_fetch demo_env 0 ''USD/JPY'' 777600000000005 3456000000000005 =
      Inl (FetchError ''Network error'') \<and>
   get demo_env 1 [(''USD/JPY'', ''USDJPY''), (''EUR/USD'', ''EURUSD'')] ''out'' (Some ''UTC'') (init demo_files) =
     Inr (process_symbol demo_env 777600000000005 3456000000000005 (raw_data_dir ''out'')
        (final_output_dir ''out'') ''UTC'' (''EUR/USD'', ''EURUSD'')
        ((init demo_files)\<lparr>stdout := [UsingBrokerTimezone ''UTC'',
              RequiredDataRange 777600000000005 3456000000000005,
              Separator, ProcessingSymbol ''USD/JPY'' ''USDJPY'', NoLocalData,
              FetchingNewData 777600000000005 3456000000000005,
              ErrorFetching ''USD/JPY'' (FetchError ''Network error'')],
           fetch_calls := [(''USD/JPY'', 777600000000005, 3456000000000005)]\<rparr>)) \<and>
   map_sum id (\<lambda>st. (files st ''out/processed_data/USDJPY-UTC-1970-02-10.csv'',
                      files st ''out/processed_data/EURUSD-UTC-1970-02-10.csv'', fetch_calls st))
     (get demo_env 1 [(''USD/JPY'', ''USDJPY''), (''EUR/USD'', ''EURUSD'')] ''out'' (Some ''UTC'') (init demo_files)) =
     Inr (None,
          Some (Csv (Some ''UTC'')
            [mk_tick 1728000000000007 1, mk_tick 1814400000000003 2, mk_tick 3024000000000000 3]),
          [(''USD/JPY'', 777600000000005, 3456000000000005),
           (''EUR/USD'', 1814400000000000, 3456000000000005)])"
proof -
  let ?st = "print [UsingBrokerTimezone ''UTC'', RequiredDataRange 777600000000005 3456000000000005]
         (init demo_files)"
  have a1: "known_timezone demo_env ''UTC''" by (simp add: demo_env_def)
  have a2: "''UTC'' = (case Some ''UTC'' of Some z \<Rightarrow> z | None \<Rightarrow> broker_timezone (init demo_files))"
    by simp
  have a3: "3456000000000005 = now_utc demo_env" by (simp add: demo_env_def)
  have a4: "777600000000005 = months_before demo_env 3456000000000005 1" by (simp add: demo_env_def)
  have a5: "?st = fold (process_symbol demo_env 777600000000005 3456000000000005 (raw_data_dir ''out'')
        (final_output_dir ''out'') ''UTC'') [] ?st"
    by simp
  have a6: "load_local_data (symbol_path (raw_data_dir ''out'') (fst (''USD/JPY'', ''USDJPY'')))
      777600000000005 3456000000000005 (files ?st) = ([], [])"
    by code_simp
  have a7: "fetch_start_date 777600000000005 [] < 3456000000000005"
    by (simp add: fetch_start_date_def)
  have a8: "dukascopy_fetch demo_env (length (fetch_calls ?st)) (fst (''USD/JPY'', ''USDJPY''))
      (fetch_start_date 777600000000005 []) 3456000000000005 = Inl (FetchError ''Network error'')"
    by (simp add: demo_env_def)
  have a9: "map_sum id (\<lambda>st. (files st ''out/processed_data/USDJPY-UTC-1970-02-10.csv'',
                      files st ''out/processed_data/EURUSD-UTC-1970-02-10.csv'', fetch_calls st))
     (get demo_env 1 [(''USD/JPY'', ''USDJPY''), (''EUR/USD'', ''EURUSD'')] ''out'' (Some ''UTC'') (init demo_files)) =
     Inr (None,
          Some (Csv (Some ''UTC'')
            [mk_tick 1728000000000007 1, mk_tick 1814400000000003 2, mk_tick 3024000000000000 3]),
          [(''USD/JPY'', 777600000000005, 3456000000000005),
           (''EUR/USD'', 1814400000000000, 3456000000000005)])"
    by code_simp
  note c = fetch_failure_skips_symbol [OF a1 a2 a3 a4 a5 a6 a7 a8, where after = "[(''EUR/USD'', ''EURUSD'')]"]
  have e: "fetch_start_date 777600000000005 [] = 777600000000005"
    by (simp add: fetch_start_date_def)
  show ?thesis
    using c a1 a6 a7 a8 a9 by (simp add: e init_def print_def)
qed

section \<open>The timezone of a run\<close>

lemma save_groups_files:
  "save_groups sp gs fs = (fs', r) \<Longrightarrow> fs' p = fs p \<or> (\<exists>df. fs' p = Some (Csv None df))"
proof (induction gs arbitrary: fs)
  case Nil
  then show ?case by simp
next
  case (Cons g gs)
  obtain year month group_df where g: "g = ((year, month), group_df)"
    by (metis surj_pair)
  show ?case
  proof (cases "fs (partition_path sp year month)")
    case None
    with Cons.prems g have "save_groups sp gs (fs(partition_path sp year month \<mapsto> Csv None group_df)) = (fs', r)"
      by simp
    from Cons.IH [OF this] show ?thesis by (auto split: if_splits)
  next
    case (Some f)
    show ?thesis
    proof (cases f)
      case (Csv z existing_df)
      with Some Cons.prems g have
        "save_groups sp gs (fs(partition_path sp year month \<mapsto> Csv None (merge_partition existing_df group_df))) = (fs', r)"
        by simp
      from Cons.IH [OF this] show ?thesis by (auto split: if_splits)
    next
      case Garbled
      with Some Cons.prems g show ?thesis by simp
    qed
  qed
qed

lemma save_local_data_files:
  assumes "save_local_data sp df st = (st', r)"
  shows "files st' p = files st p \<or> (\<exists>df'. files st' p = Some (Csv None df'))"
proof -
  obtain fs' r' where G: "save_groups sp (groupby_year_month df) (files st) = (fs', r')"
    by (meson surj_pair)
  have "files st' = fs'"
    using assms G by (cases r') (auto simp add: save_local_data_def)
  with save_groups_files [OF G, of p] show ?thesis by simp
qed

lemma fetch_step_files:
  assumes "fetch_step e ds sp a b st = (st', r)"
  shows "files st' p = files st p \<or> (\<exists>df'. files st' p = Some (Csv None df'))"
  using assms
  by (auto simp add: fetch_step_def fetch_from_dukascopy_def
      split: if_splits sum.splits prod.splits option.splits
      dest: save_local_data_files [where p = p])

lemma process_symbol_zone:
  assumes "files (process_symbol e s b raw_dir od tz symbol st) p = Some (Csv (Some t) df)"
  shows "files st p = Some (Csv (Some t) df) \<or> t = tz"
proof -
  obtain local_df warnings where L: "load_local_data (symbol_path raw_dir (fst symbol)) s b (files st) = (local_df, warnings)"
    by (meson surj_pair)
  obtain st1 r where F: "fetch_step e (fst symbol) (symbol_path raw_dir (fst symbol)) (fetch_start_date s local_df) b
          (print ([Separator, ProcessingSymbol (fst symbol) (snd symbol)] @ warnings @
             [if local_df \<noteq> [] then FoundLocalData (index_max local_df) else NoLocalData]) st) = (st1, r)"
    by (meson surj_pair)
  have S: "files st1 p = files st p \<or> (\<exists>df'. files st1 p = Some (Csv None df'))"
    using fetch_step_files [OF F, of p] by simp
  show ?thesis
  proof (cases r)
    case None
    with assms S show ?thesis
      unfolding process_symbol_eq [OF L F] by auto
  next
    case (Some new_dfs)
    with assms S show ?thesis
      unfolding process_symbol_eq [OF L F]
      by (auto simp add: export_step_files split: if_splits)
  qed
qed

lemma process_symbols_zone:
  "files (fold (process_symbol e s b raw_dir od tz) symbols st) p = Some (Csv (Some t) df) \<Longrightarrow>
   files st p = Some (Csv (Some t) df) \<or> t = tz"
proof (induction symbols arbitrary: st)
  case Nil
  then show ?case by simp
next
  case (Cons a symbols)
  from Cons.IH [of "process_symbol e s b raw_dir od tz a st"] Cons.prems
  have "files (process_symbol e s b raw_dir od tz a st) p = Some (Csv (Some t) df) \<or> t = tz"
    by simp
  then show ?case using process_symbol_zone by blast
qed

lemma process_symbols_tz:
  "broker_timezone (fold (process_symbol e s b raw_dir od tz) symbols st) = broker_timezone st"
  by (induction symbols arbitrary: st) (simp_all add: process_symbol_tz)

text \<open>
  C10: a run of \<open>get\<close> that is given a timezone leaves the stored default as it was;
  every converted file the run wrote carries the zone it was given; and a later run that
  is given none behaves as one given the default stored before.
\<close>

theorem override_leaves_default:
  assumes "get e months_to_fetch symbols output_dir (Some z) st = Inr st'"
  shows "broker_timezone st' = broker_timezone st \<and>
         (\<forall>p t df. files st' p = Some (Csv (Some t) df) \<longrightarrow>
            files st p = Some (Csv (Some t) df) \<or> t = z) \<and>
         get e2 months2 symbols2 output_dir2 None st' =
           get e2 months2 symbols2 output_dir2 (Some (broker_timezone st)) st'"
proof -
  from assms have K: "known_timezone e z"
    by (auto simp add: get_def Let_def split: if_splits)
  with assms have E: "st' = fold (process_symbol e (months_before e (now_utc e) months_to_fetch) (now_utc e)
         (raw_data_dir output_dir) (final_output_dir output_dir) z) symbols
         (print [UsingBrokerTimezone z, RequiredDataRange (months_before e (now_utc e) months_to_fetch) (now_utc e)] st)"
    by (simp add: get_def Let_def)
  have T: "broker_timezone st' = broker_timezone st"
    unfolding E by (simp add: process_symbols_tz)
  have Z: "\<forall>p t df. files st' p = Some (Csv (Some t) df) \<longrightarrow>
            files st p = Some (Csv (Some t) df) \<or> t = z"
    unfolding E using process_symbols_zone by fastforce
  have G: "get e2 months2 symbols2 output_dir2 None st' =
           get e2 months2 symbols2 output_dir2 (Some (broker_timezone st)) st'"
    using T by (simp add: get_def)
  from T Z G show ?thesis by blast
qed

theorem override_leaves_default_witness:
  "get demo_env 1 [(''EUR/USD'', ''EURUSD'')] ''out'' (Some ''UTC'') (init demo_files) =
     Inr (fold (process_symbol demo_env 777600000000005 3456000000000005 (raw_data_dir ''out'')
                 (final_output_dir ''out'') ''UTC'') [(''EUR/USD'', ''EURUSD'')]
            (print [UsingBrokerTimezone ''UTC'', RequiredDataRange 777600000000005 3456000000000005]
               (init demo_files))) \<and>
   broker_timezone (fold (process_symbol demo_env 777600000000005 3456000000000005 (raw_data_dir ''out'')
                 (final_output_dir ''out'') ''UTC'') [(''EUR/USD'', ''EURUSD'')]
            (print [UsingBrokerTimezone ''UTC'', RequiredDataRange 777600000000005 3456000000000005]
               (init demo_files))) = ''Europe/Helsinki'' \<and>
   files (fold (process_symbol demo_env 777600000000005 3456000000000005 (raw_data_dir ''out'')
                 (final_output_dir ''out'') ''UTC'') [(''EUR/USD'', ''EURUSD'')]
            (print [UsingBrokerTimezone ''UTC'', RequiredDataRange 777600000000005 3456000000000005]
               (init demo_files))) ''out/processed_data/EURUSD-UTC-1970-02-10.csv'' =
     Some (Csv (Some ''UTC'')
       [mk_tick 1728000000000007 1, mk_tick 1814400000000003 2, mk_tick 3024000000000000 3]) \<and>
   get demo_env 0 [] ''out'' None
       (fold (process_symbol demo_env 777600000000005 3456000000000005 (raw_data_dir ''out'')
                 (final_output_dir ''out'') ''UTC'') [(''EUR/USD'', ''EURUSD'')]
            (print [UsingBrokerTimezone ''UTC'', RequiredDataRange 777600000000005 3456000000000005]
               (init demo_files))) =
     get demo_env 0 [] ''out'' (Some ''Europe/Helsinki'')
       (fold (process_symbol demo_env 777600000000005 3456000000000005 (raw_data_dir ''out'')
                 (final_output_dir ''out'') ''UTC'') [(''EUR/USD'', ''EURUSD'')]
            (print [UsingBrokerTimezone ''UTC'', RequiredDataRange 777600000000005 3456000000000005]
               (init demo_files)))"
proof -
  let ?st' = "fold (process_symbol demo_env 777600000000005 3456000000000005 (raw_data_dir ''out'')
                 (final_output_dir ''out'') ''UTC'') [(''EUR/USD'', ''EURUSD'')]
            (print [UsingBrokerTimezone ''UTC'', RequiredDataRange 777600000000005 3456000000000005]
               (init demo_files))"
  have d: "known_timezone demo_env ''UTC''" "now_utc demo_env = 3456000000000005"
    "months_before demo_env 3456000000000005 1 = 777600000000005"
    by (simp_all add: demo_env_def)
  have h: "get demo_env 1 [(''EUR/USD'', ''EURUSD'')] ''out'' (Some ''UTC'') (init demo_files) = Inr ?st'"
    by (simp add: get_def Let_def d)
  have f: "files ?st' ''out/processed_data/EURUSD-UTC-1970-02-10.csv'' =
     Some (Csv (Some ''UTC'')
       [mk_tick 1728000000000007 1, mk_tick 1814400000000003 2, mk_tick 3024000000000000 3])"
    by code_simp
  have i: "broker_timezone (init demo_files) = ''Europe/Helsinki''"
    by (simp add: init_def)
  show ?thesis
    using override_leaves_default [OF h, of demo_env 0 "[]" "''out''"] h f i by simp
qed

section \<open>Paths of the cache\<close>

lemma digit_char_mem: "d < 10 \<Longrightarrow> digit_char d \<in> set ''0123456789''"
proof -
  assume "d < 10"
  then have "nat d < length ''0123456789''" by simp
  then show ?thesis unfolding digit_char_def by (rule nth_mem)
qed

lemma digit_char_inj:
  assumes "0 \<le> a" "a < 10" "0 \<le> b" "b < 10" "digit_char a = digit_char b"
  shows "a = b"
proof -
  have d: "distinct ''0123456789''" by simp
  have "nat a < length ''0123456789''" "nat b < length ''0123456789''"
    using assms by simp_all
  with d assms(5) have "nat a = nat b"
    unfolding digit_char_def by (simp only: nth_eq_iff_index_eq)
  with assms show ?thesis by simp
qed

lemma digit_char_zero: "0 \<le> a \<Longrightarrow> a < 10 \<Longrightarrow> digit_char a = CHR ''0'' \<Longrightarrow> a = 0"
proof -
  have z: "digit_char 0 = CHR ''0''" by (simp add: digit_char_def)
  assume "0 \<le> a" "a < 10" "digit_char a = CHR ''0''"
  with z show ?thesis using digit_char_inj [of a 0] by simp
qed

lemma digits_chars: "set (digits n) \<subseteq> set ''0123456789''"
proof (induction n rule: digits.induct)
  case (1 n)
  show ?case
  proof (cases "n < 10")
    case True
    then show ?thesis
      using digit_char_mem [of n] by (subst digits.simps) simp
  next
    case False
    then show ?thesis
      using 1 digit_char_mem [of "n mod 10"] by (subst digits.simps) simp
  qed
qed

lemma digits_not_Nil: "digits n \<noteq> []"
  by (subst digits.simps) simp

lemma digits_length_one: "length (digits n) = Suc 0 \<longleftrightarrow> n < 10"
  using digits_not_Nil [of "n div 10"]
  by (subst digits.simps) (auto simp add: Suc_le_eq)

lemma digits_hd: "1 \<le> n \<Longrightarrow> hd (digits n) \<noteq> CHR ''0''"
proof (induction n rule: digits.induct)
  case (1 n)
  show ?case
  proof (cases "n < 10")
    case True
    with 1 digit_char_zero [of n] have "digit_char n \<noteq> CHR ''0''" by auto
    with True show ?thesis by (subst digits.simps) simp
  next
    case False
    then have "1 \<le> n div 10" by simp
    with 1 False have "hd (digits (n div 10)) \<noteq> CHR ''0''" by simp
    with False show ?thesis
      using digits_not_Nil [of "n div 10"] by (subst digits.simps) simp
  qed
qed

lemma digits_inj: "0 \<le> n \<Longrightarrow> 0 \<le> m \<Longrightarrow> digits n = digits m \<Longrightarrow> n = m"
proof (induction n arbitrary: m rule: digits.induct)
  case (1 n)
  show ?case
  proof (cases "n < 10")
    case True
    with 1 have "m < 10" using digits_length_one [of n] digits_length_one [of m] by simp
    with True 1 have "digit_char n = digit_char m"
      by (simp add: digits.simps [of n] digits.simps [of m])
    with True \<open>m < 10\<close> 1 show ?thesis by (simp add: digit_char_inj)
  next
    case False
    with 1 have M: "\<not> m < 10" using digits_length_one [of n] digits_length_one [of m] by simp
    with False 1 have E: "digits (n div 10) = digits (m div 10)" "digit_char (n mod 10) = digit_char (m mod 10)"
      by (simp_all add: digits.simps [of n] digits.simps [of m])
    from 1 False E(1) have "n div 10 = m div 10" by simp
    moreover from E(2) have "n mod 10 = m mod 10" by (simp add: digit_char_inj)
    ultimately show ?thesis by (metis div_mult_mod_eq)
  qed
qed

lemma str_int_not_Nil: "str_int i \<noteq> []"
  by (simp add: str_int_def digits_not_Nil)

lemma digits_no_slash: "CHR ''/'' \<notin> set (digits n)"
proof
  assume "CHR ''/'' \<in> set (digits n)"
  with digits_chars [of n] have "CHR ''/'' \<in> set ''0123456789''" by (rule subsetD)
  then show False by simp
qed

lemma digits_no_minus: "CHR ''-'' \<notin> set (digits n)"
proof
  assume "CHR ''-'' \<in> set (digits n)"
  with digits_chars [of n] have "CHR ''-'' \<in> set ''0123456789''" by (rule subsetD)
  then show False by simp
qed

lemma str_int_no_slash: "CHR ''/'' \<notin> set (str_int i)"
  by (simp add: str_int_def digits_no_slash)

lemma str_int_inj: "str_int i = str_int j \<Longrightarrow> i = j"
proof -
  assume E: "str_int i = str_int j"
  have neg: "\<And>n. hd (digits n) \<noteq> CHR ''-''"
  proof -
    fix n
    have "hd (digits n) \<in> set (digits n)" using digits_not_Nil by simp
    with digits_no_minus [of n] show "hd (digits n) \<noteq> CHR ''-''" by metis
  qed
  show ?thesis
  proof (cases "i < 0")
    case True
    show ?thesis
    proof (cases "j < 0")
      case T2: True
      with True E have "digits (- i) = digits (- j)" by (simp add: str_int_def)
      with True T2 digits_inj [of "- i" "- j"] show ?thesis by simp
    next
      case False
      with True E have "CHR ''-'' # digits (- i) = digits j" by (simp add: str_int_def)
      then have "hd (digits j) = CHR ''-''" by (metis list.sel(1))
      with neg show ?thesis by simp
    qed
  next
    case False
    show ?thesis
    proof (cases "j < 0")
      case True
      with False E have "digits i = CHR ''-'' # digits (- j)" by (simp add: str_int_def)
      then have "hd (digits i) = CHR ''-''" by (metis list.sel(1))
      with neg show ?thesis by simp
    next
      case F2: False
      with False E have "digits i = digits j" by (simp add: str_int_def)
      with False F2 digits_inj [of i j] show ?thesis by simp
    qed
  qed
qed

lemma str_int_short: "length (str_int i) < 2 \<longleftrightarrow> 0 \<le> i \<and> i < 10"
proof (cases "i < 0")
  case True
  then show ?thesis
    using digits_not_Nil [of "- i"] by (cases "digits (- i)") (simp_all add: str_int_def)
next
  case False
  have "length (digits i) < 2 \<longleftrightarrow> length (digits i) = Suc 0"
    using digits_not_Nil [of i] by (cases "digits i") auto
  with False show ?thesis by (simp add: str_int_def digits_length_one)
qed

lemma str_int_long_hd: "\<not> (0 \<le> i \<and> i < 10) \<Longrightarrow> hd (str_int i) \<noteq> CHR ''0''"
  using digits_hd [of i] by (auto simp add: str_int_def)

lemma fmt_02d_short: "0 \<le> i \<and> i < 10 \<Longrightarrow> fmt_02d i = CHR ''0'' # str_int i"
  by (simp add: fmt_02d_def Let_def str_int_short)

lemma fmt_02d_long: "\<not> (0 \<le> i \<and> i < 10) \<Longrightarrow> fmt_02d i = str_int i"
  by (auto simp add: fmt_02d_def Let_def str_int_short)

lemma fmt_02d_inj: "fmt_02d i = fmt_02d j \<Longrightarrow> i = j"
proof -
  assume E: "fmt_02d i = fmt_02d j"
  show ?thesis
  proof (cases "0 \<le> i \<and> i < 10")
    case True
    show ?thesis
    proof (cases "0 \<le> j \<and> j < 10")
      case T2: True
      with True E have "str_int i = str_int j" by (simp add: fmt_02d_short)
      then show ?thesis by (rule str_int_inj)
    next
      case False
      with True E have "CHR ''0'' # str_int i = str_int j" by (simp add: fmt_02d_short fmt_02d_long)
      then have "hd (str_int j) = CHR ''0''" by (metis list.sel(1))
      with str_int_long_hd [OF False] show ?thesis by simp
    qed
  next
    case False
    show ?thesis
    proof (cases "0 \<le> j \<and> j < 10")
      case True
      with False E have "str_int i = CHR ''0'' # str_int j" by (simp add: fmt_02d_short fmt_02d_long)
      then have "hd (str_int i) = CHR ''0''" by (metis list.sel(1))
      with str_int_long_hd [OF False] show ?thesis by simp
    next
      case F2: False
      with False E have "str_int i = str_int j" by (simp add: fmt_02d_long)
      then show ?thesis by (rule str_int_inj)
    qed
  qed
qed

lemma fmt_02d_not_Nil: "fmt_02d i \<noteq> []"
  by (simp add: fmt_02d_def Let_def str_int_not_Nil)

lemma fmt_02d_no_slash: "CHR ''/'' \<notin> set (fmt_02d i)"
  using str_int_no_slash [of i] by (simp add: fmt_02d_def Let_def)

lemma fmt_02d_two_digits: "0 \<le> i \<Longrightarrow> i < 100 \<Longrightarrow> length (fmt_02d i) = 2"
proof (cases "i < 10")
  case True
  assume "0 \<le> i"
  with True have "length (str_int i) = Suc 0" by (simp add: str_int_def digits_length_one)
  with True \<open>0 \<le> i\<close> show ?thesis by (simp add: fmt_02d_short)
next
  case False
  assume "0 \<le> i" "i < 100"
  with False have "length (digits (i div 10)) = Suc 0" by (simp add: digits_length_one)
  with False have "length (digits i) = 2" by (subst digits.simps) simp
  with False \<open>0 \<le> i\<close> show ?thesis by (simp add: fmt_02d_long str_int_def)
qed

lemma hd_no_slash: "xs \<noteq> [] \<Longrightarrow> CHR ''/'' \<notin> set xs \<Longrightarrow> hd xs \<noteq> CHR ''/''"
  by (cases xs) auto

lemma last_no_slash: "xs \<noteq> [] \<Longrightarrow> CHR ''/'' \<notin> set xs \<Longrightarrow> last xs \<noteq> CHR ''/''"
  using last_in_set by metis

lemma path_join_relative:
  "b \<noteq> [] \<Longrightarrow> CHR ''/'' \<notin> set b \<Longrightarrow>
   path_join a b = (if a = [] \<or> last a = CHR ''/'' then a else a @ ''/'') @ b"
  using hd_no_slash [of b] by (simp add: path_join_def)

lemma partition_path_shape:
  "partition_path sp year month =
     (if sp = [] \<or> last sp = CHR ''/'' then sp else sp @ ''/'') @
     str_int year @ ''/'' @ fmt_02d month @ ''.csv''"
proof -
  let ?P = "(if sp = [] \<or> last sp = CHR ''/'' then sp else sp @ ''/'') @ str_int year"
  have P: "path_join sp (str_int year) = ?P"
    by (rule path_join_relative) (simp_all add: str_int_not_Nil str_int_no_slash)
  have N: "?P \<noteq> []" by (simp add: str_int_not_Nil)
  have L: "last ?P \<noteq> CHR ''/''"
    using last_no_slash [OF str_int_not_Nil str_int_no_slash, of year] by (simp add: str_int_not_Nil)
  have H: "hd (fmt_02d month @ ''.csv'') \<noteq> CHR ''/''"
    using hd_no_slash [OF fmt_02d_not_Nil fmt_02d_no_slash, of month] by (simp add: fmt_02d_not_Nil)
  have "path_join ?P (fmt_02d month @ ''.csv'') = ?P @ ''/'' @ fmt_02d month @ ''.csv''"
    using N L H unfolding path_join_def by simp
  then show ?thesis by (simp add: partition_path_def P)
qed

lemma partition_path_inj:
  assumes "partition_path sp y m = partition_path sp y' m'"
  shows "y = y' \<and> m = m'"
proof -
  let ?P = "(if sp = [] \<or> last sp = CHR ''/'' then sp else sp @ ''/'')"
  from assms have "?P @ (str_int y @ CHR ''/'' # (fmt_02d m @ ''.csv'')) =
      ?P @ (str_int y' @ CHR ''/'' # (fmt_02d m' @ ''.csv''))"
    by (simp only: partition_path_shape append_assoc append_Cons append_Nil)
  then have E: "str_int y @ CHR ''/'' # (fmt_02d m @ ''.csv'') =
      str_int y' @ CHR ''/'' # (fmt_02d m' @ ''.csv'')"
    by (simp only: same_append_eq)
  have S: "CHR ''/'' \<notin> set (fmt_02d m @ ''.csv'')"
    using fmt_02d_no_slash [of m] by simp
  have "str_int y = str_int y' \<and> fmt_02d m @ ''.csv'' = fmt_02d m' @ ''.csv''"
    by (rule iffD1 [OF append_Cons_eq_iff [OF str_int_no_slash S] E])
  then have "str_int y = str_int y'" and "fmt_02d m = fmt_02d m'"
    by (simp_all only: append_same_eq)
  then show ?thesis using str_int_inj fmt_02d_inj by blast
qed

lemma replace_slash_no_slash: "CHR ''/'' \<notin> set (replace_slash s)"
  by (auto simp add: replace_slash_def)

lemma symbol_path_shape:
  assumes "output_dir \<noteq> []" "last output_dir \<noteq> CHR ''/''" "dukascopy_symbol \<noteq> []"
  shows "symbol_path (raw_data_dir output_dir) dukascopy_symbol =
           output_dir @ ''/raw_dukascopy_data/'' @ replace_slash dukascopy_symbol"
proof -
  have R: "raw_data_dir output_dir = output_dir @ ''/raw_dukascopy_data''"
    using assms(1,2) by (simp add: raw_data_dir_def path_join_def)
  have N: "replace_slash dukascopy_symbol \<noteq> []"
    using assms(3) by (simp add: replace_slash_def)
  show ?thesis
    unfolding symbol_path_def R
    using path_join_relative [OF N replace_slash_no_slash, of "output_dir @ ''/raw_dukascopy_data''"]
    by simp
qed

lemma save_groups_touched:
  "save_groups sp gs fs = (fs', r) \<Longrightarrow> fs' p \<noteq> fs p \<Longrightarrow>
   \<exists>y m g. ((y, m), g) \<in> set gs \<and> p = partition_path sp y m"
proof (induction gs arbitrary: fs)
  case Nil
  then show ?case by simp
next
  case (Cons g gs)
  obtain year month group_df where g: "g = ((year, month), group_df)"
    by (metis surj_pair)
  show ?case
  proof (cases "p = partition_path sp year month")
    case True
    with g show ?thesis by auto
  next
    case False
    show ?thesis
    proof (cases "fs (partition_path sp year month)")
      case None
      with Cons.prems g have S: "save_groups sp gs (fs(partition_path sp year month \<mapsto> Csv None group_df)) = (fs', r)"
        by simp
      from Cons.IH [OF S] Cons.prems(2) False show ?thesis by auto
    next
      case (Some f)
      show ?thesis
      proof (cases f)
        case (Csv z existing_df)
        with Some Cons.prems g have S:
          "save_groups sp gs (fs(partition_path sp year month \<mapsto> Csv None (merge_partition existing_df group_df))) = (fs', r)"
          by simp
        from Cons.IH [OF S] Cons.prems(2) False show ?thesis by auto
      next
        case Garbled
        with Some Cons.prems g show ?thesis by simp
      qed
    qed
  qed
qed

lemma save_local_data_touched:
  assumes "files (fst (save_local_data sp df st)) p \<noteq> files st p"
  shows "\<exists>y m. p = partition_path sp y m"
proof -
  obtain fs' r' where G: "save_groups sp (groupby_year_month df) (files st) = (fs', r')"
    by (meson surj_pair)
  have "files (fst (save_local_data sp df st)) = fs'"
    using G by (cases r') (simp_all add: save_local_data_def)
  with assms save_groups_touched [OF G, of p] show ?thesis by auto
qed

lemma load_months_reads:
  "(\<And>y m. fs (partition_path sp y m) = fs' (partition_path sp y m)) \<Longrightarrow>
   load_months sp ms fs = load_months sp ms fs'"
proof (induction ms)
  case Nil
  then show ?case by simp
next
  case (Cons k ms)
  obtain y m where k: "k = (y, m)" by (metis surj_pair)
  from Cons have "load_months sp ms fs = load_months sp ms fs'" by simp
  with Cons.prems [of y m] k show ?case by simp
qed

lemma load_local_data_reads:
  "(\<And>y m. fs (partition_path sp y m) = fs' (partition_path sp y m)) \<Longrightarrow>
   load_local_data sp s b fs = load_local_data sp s b fs'"
  using load_months_reads [of fs sp fs'] by (simp add: load_local_data_def)

text \<open>
  C8 (as amended): for an output directory that is not empty and does not end in a slash,
  and a symbol that is not empty, the partition file of a symbol and a (year, month) is
  \<open><output_dir>/raw_dukascopy_data/<symbol, slashes as underscores>/<year>/<month>.csv\<close>,
  the month in two digits for months 0 to 99; the cache is read at such paths only, and
  saving changes files at such paths only. The directory is \<open>raw_dukascopy_data\<close>, not
  \<open>raw_cache\<close>.
\<close>

theorem cache_partition_path:
  assumes "output_dir \<noteq> []" and "last output_dir \<noteq> CHR ''/''" and "dukascopy_symbol \<noteq> []"
    and "sp = symbol_path (raw_data_dir output_dir) dukascopy_symbol"
  shows "partition_path sp year month =
           output_dir @ ''/raw_dukascopy_data/'' @ replace_slash dukascopy_symbol @ ''/'' @
           str_int year @ ''/'' @ fmt_02d month @ ''.csv'' \<and>
         (0 \<le> month \<and> month < 100 \<longrightarrow> length (fmt_02d month) = 2) \<and>
         (\<forall>fs fs'. (\<forall>y m. fs (partition_path sp y m) = fs' (partition_path sp y m)) \<longrightarrow>
            load_local_data sp s b fs = load_local_data sp s b fs') \<and>
         (\<forall>p. files (fst (save_local_data sp df st)) p \<noteq> files st p \<longrightarrow>
            (\<exists>y m. p = partition_path sp y m))"
proof -
  have S: "sp = output_dir @ ''/raw_dukascopy_data/'' @ replace_slash dukascopy_symbol"
    using assms by (simp add: symbol_path_shape)
  have N: "replace_slash dukascopy_symbol \<noteq> []"
    using assms(3) by (simp add: replace_slash_def)
  have L: "last sp \<noteq> CHR ''/''"
    using last_no_slash [OF N replace_slash_no_slash] N unfolding S by simp
  have A: "partition_path sp year month =
           output_dir @ ''/raw_dukascopy_data/'' @ replace_slash dukascopy_symbol @ ''/'' @
           str_int year @ ''/'' @ fmt_02d month @ ''.csv''"
    using L assms(1) unfolding partition_path_shape by (simp add: S)
  have B: "0 \<le> month \<and> month < 100 \<longrightarrow> length (fmt_02d month) = 2"
    by (simp add: fmt_02d_two_digits)
  have C: "\<forall>fs fs'. (\<forall>y m. fs (partition_path sp y m) = fs' (partition_path sp y m)) \<longrightarrow>
            load_local_data sp s b fs = load_local_data sp s b fs'"
    using load_local_data_reads by blast
  have D: "\<forall>p. files (fst (save_local_data sp df st)) p \<noteq> files st p \<longrightarrow>
            (\<exists>y m. p = partition_path sp y m)"
    using save_local_data_touched by blast
  from A B C D show ?thesis by blast
qed

theorem cache_partition_path_witness:
  "''out'' \<noteq> [] \<and> last ''out'' \<noteq> CHR ''/'' \<and> ''EUR/USD'' \<noteq> [] \<and>
   partition_path (symbol_path (raw_data_dir ''out'') ''EUR/USD'') 2025 4 =
     ''out/raw_dukascopy_data/EUR_USD/2025/04.csv'' \<and>
   length (fmt_02d 4) = 2"
proof -
  have h1: "''out'' \<noteq> []" by simp
  have h2: "last ''out'' \<noteq> CHR ''/''" by simp
  have h3: "''EUR/USD'' \<noteq> []" by simp
  have e: "''out'' @ ''/raw_dukascopy_data/'' @ replace_slash ''EUR/USD'' @ ''/'' @
           str_int 2025 @ ''/'' @ fmt_02d 4 @ ''.csv'' = ''out/raw_dukascopy_data/EUR_USD/2025/04.csv''"
    by code_simp
  show ?thesis
    using cache_partition_path [OF h1 h2 h3 refl, of 2025 4] e by simp
qed

text \<open>
  C8 as stated fails: the partition of EUR/USD for April 2025 under \<open>out\<close> is not at
  \<open>out/raw_cache/EUR_USD/2025/04.csv\<close>, and a run that fetches ticks of February 1970
  writes them under \<open>raw_dukascopy_data\<close> and nothing under \<open>raw_cache\<close>.
\<close>

theorem cache_not_under_raw_cache_counterexample:
  "partition_path (symbol_path (raw_data_dir ''out'') ''EUR/USD'') 2025 4 \<noteq>
     ''out/raw_cache/EUR_USD/2025/04.csv'' \<and>
   map_sum id (\<lambda>st. (files st ''out/raw_dukascopy_data/EUR_USD/1970/02.csv'',
                      files st ''out/raw_cache/EUR_USD/1970/02.csv''))
     (get demo_env 1 [(''EUR/USD'', ''EURUSD'')] ''out'' None (init demo_files)) =
     Inr (Some (Csv None [mk_tick 3024000000000000 3]), None)"
  by code_simp

section \<open>Dropping duplicates\<close>

lemma select_Cons: "select (x # xs) (b # bs) = (if b then x # select xs bs else select xs bs)"
  by (simp add: select_def)

lemma select_Nil: "select [] bs = []"
  by (simp add: select_def)

lemma duplicated_from_snoc:
  "duplicated_from seen (ks @ [k]) = duplicated_from seen ks @ [k \<in> set seen \<union> set ks]"
  by (induction ks arbitrary: seen) auto

lemma duplicated_last_Cons: "duplicated_last (k # ks) = (k \<in> set ks) # duplicated_last ks"
  by (simp add: duplicated_last_def duplicated_from_snoc)

lemma drop_duplicates_last_Nil: "drop_duplicates_last [] = []"
  by (simp add: drop_duplicates_last_def select_def)

lemma drop_duplicates_last_Cons:
  "drop_duplicates_last (x # xs) =
     (if timestamp x \<in> timestamp ` set xs then drop_duplicates_last xs else x # drop_duplicates_last xs)"
  by (simp add: drop_duplicates_last_def duplicated_last_Cons select_Cons)

lemma drop_duplicates_last_keys:
  "timestamp ` set (drop_duplicates_last xs) = timestamp ` set xs"
  by (induction xs) (auto simp add: drop_duplicates_last_Nil drop_duplicates_last_Cons)

lemma drop_duplicates_last_distinct: "distinct (map timestamp (drop_duplicates_last xs))"
proof (induction xs)
  case Nil
  then show ?case by (simp add: drop_duplicates_last_Nil)
next
  case (Cons x xs)
  then show ?case
    using drop_duplicates_last_keys [of xs]
    by (simp add: drop_duplicates_last_Cons)
qed

lemma drop_from_Cons:
  "select (x # xs) (map Not (duplicated_from seen (map timestamp (x # xs)))) =
     (if timestamp x \<in> set seen
      then select xs (map Not (duplicated_from (timestamp x # seen) (map timestamp xs)))
      else x # select xs (map Not (duplicated_from (timestamp x # seen) (map timestamp xs))))"
  by (simp add: select_Cons)

lemma drop_from_keys:
  "timestamp ` set (select xs (map Not (duplicated_from seen (map timestamp xs)))) =
     timestamp ` set xs - set seen"
proof (induction xs arbitrary: seen)
  case Nil
  then show ?case by (simp add: select_Nil)
next
  case (Cons x xs)
  show ?case
    unfolding drop_from_Cons using Cons [of "timestamp x # seen"] by auto
qed

lemma drop_from_subset:
  "set (select xs (map Not (duplicated_from seen (map timestamp xs)))) \<subseteq> set xs"
proof (induction xs arbitrary: seen)
  case Nil
  then show ?case by (simp add: select_Nil)
next
  case (Cons x xs)
  show ?case
    unfolding drop_from_Cons using Cons [of "timestamp x # seen"] by auto
qed

lemma drop_from_distinct:
  "distinct (map timestamp (select xs (map Not (duplicated_from seen (map timestamp xs)))))"
proof (induction xs arbitrary: seen)
  case Nil
  then show ?case by (simp add: select_Nil)
next
  case (Cons x xs)
  show ?case
    unfolding drop_from_Cons
    using Cons [of "timestamp x # seen"] drop_from_keys [of xs "timestamp x # seen"]
    by auto
qed

lemma drop_duplicates_first_distinct: "distinct (map timestamp (drop_duplicates_first xs))"
  by (simp add: drop_duplicates_first_def duplicated_first_def drop_from_distinct)

lemma drop_duplicates_first_keys:
  "timestamp ` set (drop_duplicates_first xs) = timestamp ` set xs"
  using drop_from_keys [of xs "[]"] by (simp add: drop_duplicates_first_def duplicated_first_def)

lemma drop_duplicates_first_subset: "set (drop_duplicates_first xs) \<subseteq> set xs"
  using drop_from_subset [of xs "[]"] by (simp add: drop_duplicates_first_def duplicated_first_def)

section \<open>The merged frame\<close>

lemma strict_sorted_map:
  "sorted_wrt (<) (map timestamp xs) \<longleftrightarrow> sorted (map timestamp xs) \<and> distinct (map timestamp xs)"
  by (rule strict_sorted_iff)

lemma sort_index_strict:
  "distinct (map timestamp xs) \<Longrightarrow> sorted_wrt (<) (map timestamp (sort_index xs))"
  by (simp add: strict_sorted_map sort_index_def distinct_map)

lemma filter_strict:
  "sorted_wrt (<) (map timestamp xs) \<Longrightarrow> sorted_wrt (<) (map timestamp (filter P xs))"
  by (simp add: sorted_wrt_map sorted_wrt_filter)

lemma final_df_strict: "sorted_wrt (<) (map timestamp (final_df s b dfs))"
  unfolding final_df_filter
  by (intro filter_strict sort_index_strict drop_duplicates_first_distinct)

lemma final_df_subset: "set (final_df s b dfs) \<subseteq> set (concat dfs)"
  unfolding final_df_filter
  using drop_duplicates_first_subset [of "concat dfs"] by (auto simp add: sort_index_def)

text \<open>
  C2: the merged frame is sorted by timestamp and holds no two rows of one timestamp,
  as the claim says (\<open>final_df_strict\<close> above). Which row it keeps at a shared
  timestamp is not as the claim says: \<open>duplicated(keep='first')\<close> on the cached rows
  followed by the fetched rows keeps the cached row. The source answers the request for
  EUR/USD from 1970-01-22 on with a tick of 1970-01-21 at bid 9, where the cache holds
  bid 1: the export holds bid 1, while the partition rewritten in the same run holds bid 9.
\<close>

theorem merged_keeps_cached_row:
  "demo_files ''out/raw_dukascopy_data/EUR_USD/1970/01.csv'' =
     Some (Csv None [mk_tick 1728000000000007 1, mk_tick 1814400000000003 2]) \<and>
   dukascopy_fetch demo_env 0 ''EUR/USD'' 1814400000000000 3456000000000005 =
     Inr [mk_tick 1728000000000007 9, mk_tick 1814400000000003 2, mk_tick 3024000000000000 3] \<and>
   final_df 777600000000005 3456000000000005
     [[mk_tick 1728000000000007 1],
      [mk_tick 1728000000000007 9, mk_tick 1814400000000003 2, mk_tick 3024000000000000 3]] =
     [mk_tick 1728000000000007 1, mk_tick 1814400000000003 2, mk_tick 3024000000000000 3] \<and>
   map_sum id (\<lambda>st. (fetch_calls st,
                      files st ''out/processed_data/EURUSD-Europe_Helsinki-1970-02-10.csv'',
                      files st ''out/raw_dukascopy_data/EUR_USD/1970/01.csv''))
     (get demo_env 1 [(''EUR/USD'', ''EURUSD'')] ''out'' None (init demo_files)) =
     Inr ([(''EUR/USD'', 1814400000000000, 3456000000000005)],
          Some (Csv (Some ''Europe/Helsinki'')
            [mk_tick 1728000000000007 1, mk_tick 1814400000000003 2, mk_tick 3024000000000000 3]),
          Some (Csv None [mk_tick 1728000000000007 9, mk_tick 1814400000000003 2]))"
  by code_simp

section \<open>Merging into a partition\<close>

lemma newest_at_Nil: "newest_at [] = Map.empty"
  by (simp add: newest_at_def)

lemma newest_at_append: "newest_at (xs @ ys) = newest_at xs ++ newest_at ys"
  by (simp add: newest_at_def map_of_append)

lemma newest_at_single: "newest_at [x] = [timestamp x \<mapsto> x]"
  by (simp add: newest_at_def)

lemma newest_at_Cons: "newest_at (x # xs) = [timestamp x \<mapsto> x] ++ newest_at xs"
  using newest_at_append [of "[x]" xs] by (simp add: newest_at_single)

lemma newest_at_dom: "dom (newest_at xs) = timestamp ` set xs"
  by (induction xs) (auto simp add: newest_at_Nil newest_at_Cons)

lemma newest_at_mem: "newest_at xs t = Some r \<Longrightarrow> r \<in> set xs \<and> timestamp r = t"
  by (induction xs) (auto simp add: newest_at_Nil newest_at_Cons map_add_Some_iff split: if_splits)

lemma newest_at_distinct:
  "distinct (map timestamp xs) \<Longrightarrow> r \<in> set xs \<Longrightarrow> newest_at xs (timestamp r) = Some r"
proof (induction xs)
  case Nil
  then show ?case by simp
next
  case (Cons x xs)
  show ?case
  proof (cases "r = x")
    case True
    with Cons.prems have "timestamp x \<notin> dom (newest_at xs)" by (simp add: newest_at_dom)
    then have "newest_at xs (timestamp x) = None" by blast
    with True show ?thesis by (simp add: newest_at_Cons map_add_def)
  next
    case False
    with Cons show ?thesis by (simp add: newest_at_Cons map_add_def)
  qed
qed

lemma newest_at_set:
  assumes "distinct (map timestamp xs)"
  shows "set xs = ran (newest_at xs)"
proof
  show "set xs \<subseteq> ran (newest_at xs)"
    using newest_at_distinct [OF assms] by (auto simp add: ran_def)
  show "ran (newest_at xs) \<subseteq> set xs"
    using newest_at_mem by (auto simp add: ran_def)
qed

lemma newest_at_unique:
  assumes "sorted_wrt (<) (map timestamp xs)" and "sorted_wrt (<) (map timestamp ys)"
    and "newest_at xs = newest_at ys"
  shows "xs = ys"
proof -
  from assms(1,2) have d: "distinct (map timestamp xs)" "distinct (map timestamp ys)"
    and s: "sorted (map timestamp xs)" "sorted (map timestamp ys)"
    by (simp_all add: strict_sorted_map)
  have e: "set xs = set ys"
    using newest_at_set [OF d(1)] newest_at_set [OF d(2)] assms(3) by simp
  have i: "inj_on timestamp (set xs \<union> set ys)"
    using d(1) e by (simp add: distinct_map)
  show ?thesis
    by (rule map_sorted_distinct_set_unique [OF i s(1) d(1) s(2) d(2) e])
qed

lemma newest_at_drop_last: "newest_at (drop_duplicates_last xs) = newest_at xs"
proof (induction xs)
  case Nil
  then show ?case by (simp add: drop_duplicates_last_Nil)
next
  case (Cons x xs)
  show ?case
  proof (cases "timestamp x \<in> timestamp ` set xs")
    case True
    then have "timestamp x \<in> dom (newest_at xs)" by (simp add: newest_at_dom)
    then have "[timestamp x \<mapsto> x] ++ newest_at xs = newest_at xs"
      by (auto simp add: map_add_def split: option.splits)
    with True Cons show ?thesis by (simp add: drop_duplicates_last_Cons newest_at_Cons)
  next
    case False
    with Cons show ?thesis by (simp add: drop_duplicates_last_Cons newest_at_Cons)
  qed
qed

lemma newest_at_sort:
  assumes "distinct (map timestamp xs)"
  shows "newest_at (sort_index xs) = newest_at xs"
proof
  fix t
  have d: "distinct (map timestamp (sort_index xs))"
    using assms by (simp add: sort_index_def distinct_map)
  show "newest_at (sort_index xs) t = newest_at xs t"
  proof (cases "newest_at xs t")
    case None
    then have "t \<notin> dom (newest_at xs)" by (simp add: domIff)
    then have "t \<notin> timestamp ` set xs" by (simp add: newest_at_dom)
    then have "t \<notin> dom (newest_at (sort_index xs))" by (simp add: newest_at_dom sort_index_def)
    then have "newest_at (sort_index xs) t = None" by (simp add: domIff)
    with None show ?thesis by simp
  next
    case (Some r)
    then have "r \<in> set (sort_index xs)" "timestamp r = t"
      using newest_at_mem [OF Some] by (simp_all add: sort_index_def)
    with newest_at_distinct [OF d] Some show ?thesis by auto
  qed
qed

lemma merge_partition_strict: "sorted_wrt (<) (map timestamp (merge_partition a b))"
  unfolding merge_partition_def
  by (intro sort_index_strict drop_duplicates_last_distinct)

lemma merge_partition_newest: "newest_at (merge_partition a b) = newest_at a ++ newest_at b"
  by (simp add: merge_partition_def newest_at_sort drop_duplicates_last_distinct
      newest_at_drop_last newest_at_append)

lemma map_add_twice: "(m ++ n) ++ n = m ++ n"
  by (rule ext) (simp add: map_add_def split: option.splits)

lemma map_add_self: "m ++ m = m"
  by (rule ext) (simp add: map_add_def split: option.splits)

lemma merge_partition_again: "merge_partition (merge_partition a b) b = merge_partition a b"
  by (rule newest_at_unique) (simp_all add: merge_partition_strict merge_partition_newest map_add_twice)

lemma merge_partition_self:
  "sorted_wrt (<) (map timestamp a) \<Longrightarrow> merge_partition a a = a"
  by (rule newest_at_unique) (simp_all add: merge_partition_strict merge_partition_newest map_add_self)

lemma merge_partition_contained:
  assumes "sorted_wrt (<) (map timestamp a)" and "set b \<subseteq> set a"
  shows "merge_partition a b = a"
proof (rule newest_at_unique [OF merge_partition_strict assms(1)])
  have d: "distinct (map timestamp a)" using assms(1) by (simp add: strict_sorted_map)
  have "newest_at a ++ newest_at b = newest_at a"
  proof
    fix t
    show "(newest_at a ++ newest_at b) t = newest_at a t"
    proof (cases "newest_at b t")
      case None
      then show ?thesis by (simp add: map_add_def)
    next
      case (Some r)
      from newest_at_mem [OF Some] assms(2) have "r \<in> set a" "timestamp r = t" by auto
      with newest_at_distinct [OF d] Some show ?thesis by (auto simp add: map_add_def)
    qed
  qed
  then show "newest_at (merge_partition a b) = newest_at a"
    by (simp add: merge_partition_newest)
qed

end
